theory Spec2Isabelle
  imports Main "HOL-Library.Word"
begin

unbundle bit_operations_syntax

section \<open>The frame table of vm/frame.c\<close>

text \<open>
  The frame manager keeps three pieces of global state: the hash table \<open>frame_map\<close> from a
  frame's kernel address to its entry, the list \<open>frame_list\<close> of the same entries, and the
  clock hand \<open>clock_ptr\<close>, a pointer to a list element. Entries are allocated with malloc
  and linked into both containers through embedded elements, so an entry is identified by its
  address. The model keeps that identity: the containers hold entry addresses and the entry
  records live in a store from addresses to records.
\<close>

subsection \<open>Data\<close>

type_synonym vaddr = "32 word"
type_synonym entry_ptr = nat
type_synonym thread_ptr = nat
type_synonym pagedir_ptr = "32 word"
type_synonym supt_ptr = nat
type_synonym swap_index_t = nat

text \<open>
  \<open>struct frame_table_entry\<close>. The embedded \<open>helem\<close> and \<open>lelem\<close> are the entry's
  membership in \<open>frame_map\<close> and \<open>frame_list\<close>; the field \<open>t\<close> of the source is
  \<open>thread_t\<close> here, the null thread pointer is 0.
\<close>

record frame_table_entry =
  kpage :: vaddr
  upage :: vaddr
  thread_t :: thread_ptr
  pinned :: bool

text \<open>
  Modelled from the spec: \<open>struct thread\<close> (threads/thread.h) is not among the sources.
  The frame table reads two of its fields, the page table and the supplemental page table of
  the owning process. The state gives these fields for every thread pointer, so a read
  through a pointer that is no thread yields whatever is stored there.
\<close>

record thread =
  pagedir :: pagedir_ptr
  supt :: supt_ptr

text \<open>
  A \<open>struct list_elem *\<close> into \<open>frame_list\<close>: the null pointer, the \<open>lelem\<close> of the
  entry at an address, or the list's tail sentinel, which is what \<open>list_end\<close> returns and
  which belongs to no entry.
\<close>

datatype list_elem_ptr = NULL | Lelem entry_ptr | Tail

text \<open>The calls made to the collaborators, in the order they are made.\<close>

datatype event =
    Palloc_get_page "vaddr option"
  | Palloc_free_page vaddr
  | Pagedir_is_accessed pagedir_ptr vaddr
  | Pagedir_set_accessed pagedir_ptr vaddr bool
  | Pagedir_clear_page pagedir_ptr vaddr
  | Swap_out vaddr swap_index_t
  | Supt_set_swap supt_ptr vaddr swap_index_t
  | Malloc "entry_ptr option"
  | Free entry_ptr

text \<open>
  The ways an operation does not return: the three PANICs of the source, its assertions,
  and a read through the null pointer or through a pointer into a block that has been freed
  (undefined in C).
\<close>

datatype error =
    Panic_frame_table_empty
  | Panic_not_enough_memory
  | Panic_frame_does_not_exist
  | Assert_lock_not_held_on_acquire
  | Assert_lock_held
  | Assert_is_kernel_vaddr
  | Assert_pg_ofs
  | Assert_f_evicted
  | Assert_pagedir
  | Assert_frame_page
  | Assert_list_elem
  | Invalid_pointer

text \<open>
  The globals of frame.c (\<open>frame_lock\<close>, \<open>frame_map\<close>, \<open>frame_list\<close>, \<open>clock_ptr\<close>),
  the entry records in the kernel heap, and the collaborators' state the frame manager
  depends on: the free user frames of the page allocator, the threads, the accessed and
  present bits of the page tables (kept for each page directory and page), and the log of
  collaborator calls.

  \<open>tail_entry\<close> is the static storage around the tail sentinel of \<open>frame_list\<close>, read as
  a \<open>struct frame_table_entry\<close>: \<open>list_entry\<close> of the sentinel is an address 16 bytes
  before the sentinel, and the fields \<open>kpage\<close>, \<open>upage\<close>, \<open>t\<close> and \<open>pinned\<close> read
  through it are whatever the kernel keeps next to \<open>frame_list\<close>. The layout of that
  storage is not in the sources, so its contents are a component of the state and every
  value of it is possible.
\<close>

record vm =
  frame_lock :: bool
  frame_map :: "(vaddr \<times> entry_ptr) list"
  frame_list :: "entry_ptr list"
  clock_ptr :: list_elem_ptr
  kheap :: "entry_ptr \<rightharpoonup> frame_table_entry"
  user_pool :: "vaddr list"
  threads :: "thread_ptr \<Rightarrow> thread"
  accessed :: "(pagedir_ptr \<times> vaddr) set"
  present :: "(pagedir_ptr \<times> vaddr) set"
  tail_entry :: frame_table_entry
  calls :: "event list"

subsection \<open>The kernel library\<close>

text \<open>
  Modelled from the spec: lib/kernel/list.c is not among the sources. The Eviction Order is
  an ordered sequence with a position past its end (the cursor wraps "when it passes the
  end"). \<open>list_begin\<close> is the first element, or the tail sentinel when the list is empty;
  \<open>list_end\<close> is the tail sentinel; \<open>list_next\<close> is the element after an element of the
  list, the tail sentinel after the last one, asserts that its argument is not the tail or
  null, and reads the links of its argument, which is a read of freed memory when the
  element is no longer in the list; \<open>list_remove\<close> unlinks an element and
  \<open>list_push_back\<close> links one before the tail.
\<close>

definition list_empty :: "entry_ptr list \<Rightarrow> bool" where
  "list_empty l = (l = [])"

definition list_begin :: "entry_ptr list \<Rightarrow> list_elem_ptr" where
  "list_begin l = (case l of [] \<Rightarrow> Tail | a # _ \<Rightarrow> Lelem a)"

definition list_end :: "entry_ptr list \<Rightarrow> list_elem_ptr" where
  "list_end l = Tail"

fun list_next :: "entry_ptr list \<Rightarrow> list_elem_ptr \<Rightarrow> error + list_elem_ptr" where
  "list_next l (Lelem a) =
     (if a \<in> set l then Inr (list_begin (tl (dropWhile (\<lambda>x. x \<noteq> a) l)))
      else Inl Invalid_pointer)"
| "list_next l Tail = Inl Assert_list_elem"
| "list_next l NULL = Inl Assert_list_elem"

definition list_remove :: "entry_ptr \<Rightarrow> entry_ptr list \<Rightarrow> entry_ptr list" where
  "list_remove a l = remove1 a l"

definition list_push_back :: "entry_ptr list \<Rightarrow> entry_ptr \<Rightarrow> entry_ptr list" where
  "list_push_back l a = l @ [a]"

text \<open>
  Modelled from the spec: lib/kernel/hash.c is not among the sources. The Frame Registry is
  a mapping with unique keys; the key of an entry is its \<open>kpage\<close> (\<open>frame_hash_func\<close> and
  \<open>frame_less_func\<close> read nothing else). \<open>hash_insert\<close> leaves the table as it is when
  the key is already there, \<open>hash_delete\<close> removes the element with that key,
  \<open>hash_size\<close> is the number of elements.
\<close>

definition hash_find :: "(vaddr \<times> entry_ptr) list \<Rightarrow> vaddr \<Rightarrow> entry_ptr option" where
  "hash_find h k = map_of h k"

definition hash_insert :: "(vaddr \<times> entry_ptr) list \<Rightarrow> vaddr \<Rightarrow> entry_ptr \<Rightarrow> (vaddr \<times> entry_ptr) list" where
  "hash_insert h k a = (case map_of h k of None \<Rightarrow> (k, a) # h | Some _ \<Rightarrow> h)"

fun hash_delete :: "(vaddr \<times> entry_ptr) list \<Rightarrow> vaddr \<Rightarrow> (vaddr \<times> entry_ptr) list" where
  "hash_delete [] k = []"
| "hash_delete ((k', a) # h) k = (if k' = k then h else (k', a) # hash_delete h k)"

definition hash_size :: "(vaddr \<times> entry_ptr) list \<Rightarrow> nat" where
  "hash_size h = length h"

text \<open>
  Modelled from the spec: threads/vaddr.h is not among the sources. A kernel virtual address
  is one at or above \<open>PHYS_BASE\<close>, \<open>pg_ofs\<close> is the offset of an address within its
  4 kB page, and \<open>pg_round_down\<close> is the start of that page.
\<close>

definition PHYS_BASE :: vaddr where
  "PHYS_BASE = 0xc0000000"

definition is_kernel_vaddr :: "vaddr \<Rightarrow> bool" where
  "is_kernel_vaddr va = (PHYS_BASE \<le> va)"

definition pg_ofs :: "vaddr \<Rightarrow> vaddr" where
  "pg_ofs va = va AND 0xfff"

definition pg_round_down :: "vaddr \<Rightarrow> vaddr" where
  "pg_round_down va = va AND NOT 0xfff"

text \<open>
  Modelled from the spec: threads/synch.c is not among the sources. One thread runs an
  operation at a time; \<open>lock_acquire\<close> asserts that the caller does not hold the lock yet.
\<close>

definition lock_acquire :: "vm \<Rightarrow> error + vm" where
  "lock_acquire s =
     (if frame_lock s then Inl Assert_lock_not_held_on_acquire
      else Inr (s\<lparr>frame_lock := True\<rparr>))"

definition lock_release :: "vm \<Rightarrow> vm" where
  "lock_release s = s\<lparr>frame_lock := False\<rparr>"

definition lock_held_by_current_thread :: "vm \<Rightarrow> bool" where
  "lock_held_by_current_thread s = frame_lock s"

subsection \<open>The collaborators\<close>

text \<open>
  Modelled from the spec: threads/palloc.c, threads/malloc.c, userprog/pagedir.c, vm/swap.c
  and vm/page.c are not among the sources. The physical page pool has
  \<open>acquire() -> frame-or-none\<close> and \<open>release(frame)\<close>; the page table has
  \<open>clear_mapping\<close>, \<open>query_accessed\<close> and \<open>clear_accessed\<close>; the backing store has
  \<open>write_out(frame_contents) -> backing_location\<close>; the supplemental page table has
  \<open>record_backing_location\<close>. What malloc returns and which slot the swap device picks
  are the environment's choice and are arguments of the operations. A page table has one
  entry for each page, so an address stands for the page it lies in. Each call is logged
  with its arguments.
\<close>

definition log :: "event \<Rightarrow> vm \<Rightarrow> vm" where
  "log ev s = s\<lparr>calls := calls s @ [ev]\<rparr>"

definition palloc_get_page :: "vm \<Rightarrow> vaddr option \<times> vm" where
  "palloc_get_page s =
     (case user_pool s of
        [] \<Rightarrow> (None, log (Palloc_get_page None) s)
      | k # ks \<Rightarrow> (Some k, log (Palloc_get_page (Some k)) (s\<lparr>user_pool := ks\<rparr>)))"

definition palloc_free_page :: "vaddr \<Rightarrow> vm \<Rightarrow> vm" where
  "palloc_free_page k s = log (Palloc_free_page k) (s\<lparr>user_pool := k # user_pool s\<rparr>)"

definition malloc :: "entry_ptr option \<Rightarrow> vm \<Rightarrow> entry_ptr option \<times> vm" where
  "malloc m s = (m, log (Malloc m) s)"

definition free :: "entry_ptr \<Rightarrow> vm \<Rightarrow> vm" where
  "free a s = log (Free a) (s\<lparr>kheap := (kheap s)(a := None)\<rparr>)"

definition pagedir_is_accessed :: "pagedir_ptr \<Rightarrow> vaddr \<Rightarrow> vm \<Rightarrow> bool \<times> vm" where
  "pagedir_is_accessed pd vpage s =
     ((pd, pg_round_down vpage) \<in> accessed s, log (Pagedir_is_accessed pd vpage) s)"

definition pagedir_set_accessed :: "pagedir_ptr \<Rightarrow> vaddr \<Rightarrow> bool \<Rightarrow> vm \<Rightarrow> vm" where
  "pagedir_set_accessed pd vpage b s =
     log (Pagedir_set_accessed pd vpage b)
       (s\<lparr>accessed := (if b then insert (pd, pg_round_down vpage) (accessed s)
                       else accessed s - {(pd, pg_round_down vpage)})\<rparr>)"

definition pagedir_clear_page :: "pagedir_ptr \<Rightarrow> vaddr \<Rightarrow> vm \<Rightarrow> vm" where
  "pagedir_clear_page pd vpage s =
     log (Pagedir_clear_page pd vpage) (s\<lparr>present := present s - {(pd, pg_round_down vpage)}\<rparr>)"

definition vm_swap_out :: "swap_index_t \<Rightarrow> vaddr \<Rightarrow> vm \<Rightarrow> swap_index_t \<times> vm" where
  "vm_swap_out idx k s = (idx, log (Swap_out k idx) s)"

definition vm_supt_set_swap :: "supt_ptr \<Rightarrow> vaddr \<Rightarrow> swap_index_t \<Rightarrow> vm \<Rightarrow> vm" where
  "vm_supt_set_swap sp vpage idx s = log (Supt_set_swap sp vpage idx) s"

subsection \<open>The clock algorithm\<close>

text \<open>
  \<open>clock_next_frame\<close> moves \<open>clock_ptr\<close> and returns \<open>list_entry (clock_ptr, ...)\<close>,
  the address of the structure around the element the hand is on. The model returns the
  element pointer; \<open>entry_at\<close> is the read of the fields through it: the record of the
  entry when the pointer is the element of a live entry, and the storage around the
  sentinel when it is the tail sentinel, which the source reads like any entry.
\<close>

definition clock_next_frame :: "vm \<Rightarrow> error + (list_elem_ptr \<times> vm)" where
  "clock_next_frame s =
     (if list_empty (frame_list s) then Inl Panic_frame_table_empty
      else
        (case (if clock_ptr s = NULL \<or> clock_ptr s = list_end (frame_list s)
               then Inr (list_begin (frame_list s))
               else list_next (frame_list s) (clock_ptr s)) of
           Inl x \<Rightarrow> Inl x
         | Inr p \<Rightarrow> Inr (p, s\<lparr>clock_ptr := p\<rparr>)))"

definition entry_at :: "vm \<Rightarrow> list_elem_ptr \<Rightarrow> error + frame_table_entry" where
  "entry_at s p =
     (case p of
        Lelem a \<Rightarrow> (case kheap s a of Some f \<Rightarrow> Inr f | None \<Rightarrow> Inl Invalid_pointer)
      | Tail \<Rightarrow> Inr (tail_entry s)
      | NULL \<Rightarrow> Inl Invalid_pointer)"

text \<open>
  The loop \<open>for (it = 0; it <= n + n; ++it)\<close> of \<open>clock_pick_evict_frame\<close>. The counters
  are natural numbers: \<open>n + n\<close> wraps in a 32-bit \<open>size_t\<close> only from \<open>2^31\<close> entries
  on, more than a 32-bit kernel heap holds.
\<close>

function clock_loop ::
  "pagedir_ptr \<Rightarrow> nat \<Rightarrow> nat \<Rightarrow> vm \<Rightarrow> error + (list_elem_ptr \<times> vm)" where
  "clock_loop pd n it s =
     (if it \<le> n + n then
        (case clock_next_frame s of
           Inl x \<Rightarrow> Inl x
         | Inr (e, s1) \<Rightarrow>
             (case entry_at s1 e of
                Inl x \<Rightarrow> Inl x
              | Inr f \<Rightarrow>
                  if pinned f then clock_loop pd n (Suc it) s1
                  else
                    (case pagedir_is_accessed pd (upage f) s1 of
                       (True, s2) \<Rightarrow>
                         clock_loop pd n (Suc it) (pagedir_set_accessed pd (upage f) False s2)
                     | (False, s2) \<Rightarrow> Inr (e, s2))))
      else Inl Panic_not_enough_memory)"
  by pat_completeness auto
termination
  by (relation "measure (\<lambda>(pd, n, it, s). Suc (n + n) - it)") auto

definition clock_pick_evict_frame ::
  "pagedir_ptr \<Rightarrow> vm \<Rightarrow> error + (list_elem_ptr \<times> vm)" where
  "clock_pick_evict_frame pd s =
     (let n = hash_size (frame_map s)
      in if n = 0 then Inl Panic_frame_table_empty else clock_loop pd n 0 s)"

subsection \<open>The public operations\<close>

definition vm_frame_init :: "vm \<Rightarrow> vm" where
  "vm_frame_init s = s\<lparr>frame_lock := False, frame_map := [], frame_list := [], clock_ptr := NULL\<rparr>"

definition vm_frame_do_free :: "vaddr \<Rightarrow> bool \<Rightarrow> vm \<Rightarrow> error + vm" where
  "vm_frame_do_free k free_page s =
     (if \<not> lock_held_by_current_thread s then Inl Assert_lock_held
      else if \<not> is_kernel_vaddr k then Inl Assert_is_kernel_vaddr
      else if pg_ofs k \<noteq> 0 then Inl Assert_pg_ofs
      else
        (case hash_find (frame_map s) k of
           None \<Rightarrow> Inr s
         | Some a \<Rightarrow>
             (let s1 = s\<lparr>frame_map := hash_delete (frame_map s) k\<rparr>;
                  s2 = s1\<lparr>frame_list := list_remove a (frame_list s1)\<rparr>;
                  s3 = (if free_page then palloc_free_page k s2 else s2)
              in Inr (free a s3))))"

text \<open>
  \<open>vm_frame_allocate\<close>, called by the thread \<open>cur\<close> (\<open>thread_current ()\<close>); \<open>idx\<close> is
  the slot the swap device picks if a page is swapped out and \<open>m\<close> is what malloc returns.
  The result is the frame, or \<open>None\<close> for the null pointer. \<open>acquire_frame\<close> is the first
  half of the function (lines 68 to 95): it takes the lock and obtains \<open>frame_page\<close>, by
  evicting a frame when the pool has none; the second half allocates and links the entry.
\<close>

definition acquire_frame :: "thread_ptr \<Rightarrow> swap_index_t \<Rightarrow> vm \<Rightarrow> error + (vaddr \<times> vm)" where
  "acquire_frame cur idx s =
     (case lock_acquire s of
        Inl x \<Rightarrow> Inl x
      | Inr s0 \<Rightarrow>
          (case palloc_get_page s0 of
             (Some frame_page, s1) \<Rightarrow> Inr (frame_page, s1)
           | (None, s1) \<Rightarrow>
               (case clock_pick_evict_frame (pagedir (threads s1 cur)) s1 of
                  Inl x \<Rightarrow> Inl x
                | Inr (e, s2) \<Rightarrow>
                    (case entry_at s2 e of
                       Inl x \<Rightarrow> Inl x
                     | Inr f_evicted \<Rightarrow>
                         if thread_t f_evicted = 0 then Inl Assert_f_evicted
                         else if pagedir (threads s2 (thread_t f_evicted)) = 0xcccccccc
                         then Inl Assert_pagedir
                         else
                           (let s3 = pagedir_clear_page
                                       (pagedir (threads s2 (thread_t f_evicted)))
                                       (upage f_evicted) s2;
                                (swap_idx, s4) = vm_swap_out idx (kpage f_evicted) s3;
                                s5 = vm_supt_set_swap
                                       (supt (threads s4 (thread_t f_evicted)))
                                       (upage f_evicted) swap_idx s4
                            in (case vm_frame_do_free (kpage f_evicted) True s5 of
                                  Inl x \<Rightarrow> Inl x
                                | Inr s6 \<Rightarrow>
                                    (case palloc_get_page s6 of
                                       (None, s7) \<Rightarrow> Inl Assert_frame_page
                                     | (Some frame_page, s7) \<Rightarrow> Inr (frame_page, s7))))))))"

definition vm_frame_allocate ::
  "thread_ptr \<Rightarrow> swap_index_t \<Rightarrow> entry_ptr option \<Rightarrow> vaddr \<Rightarrow> vm \<Rightarrow> error + (vaddr option \<times> vm)" where
  "vm_frame_allocate cur idx m upg s =
     (case acquire_frame cur idx s of
        Inl x \<Rightarrow> Inl x
      | Inr (frame_page, s8) \<Rightarrow>
          (case malloc m s8 of
             (None, s9) \<Rightarrow> Inr (None, lock_release s9)
           | (Some frame, s9) \<Rightarrow>
               (let s10 = s9\<lparr>kheap := (kheap s9)(frame \<mapsto>
                             \<lparr>kpage = frame_page, upage = upg, thread_t = cur,
                              pinned = False\<rparr>)\<rparr>;
                    s11 = s10\<lparr>frame_map := hash_insert (frame_map s10) frame_page frame\<rparr>;
                    s12 = s11\<lparr>frame_list := list_push_back (frame_list s11) frame\<rparr>
                in Inr (Some frame_page, lock_release s12))))"

definition vm_frame_free :: "vaddr \<Rightarrow> vm \<Rightarrow> error + vm" where
  "vm_frame_free k s =
     (case lock_acquire s of
        Inl x \<Rightarrow> Inl x
      | Inr s1 \<Rightarrow>
          (case vm_frame_do_free k True s1 of
             Inl x \<Rightarrow> Inl x
           | Inr s2 \<Rightarrow> Inr (lock_release s2)))"

definition vm_frame_remove_entry :: "vaddr \<Rightarrow> vm \<Rightarrow> error + vm" where
  "vm_frame_remove_entry k s =
     (case lock_acquire s of
        Inl x \<Rightarrow> Inl x
      | Inr s1 \<Rightarrow>
          (case vm_frame_do_free k False s1 of
             Inl x \<Rightarrow> Inl x
           | Inr s2 \<Rightarrow> Inr (lock_release s2)))"

definition vm_frame_set_pinned :: "vaddr \<Rightarrow> bool \<Rightarrow> vm \<Rightarrow> error + vm" where
  "vm_frame_set_pinned k new_value s =
     (case lock_acquire s of
        Inl x \<Rightarrow> Inl x
      | Inr s1 \<Rightarrow>
          (case hash_find (frame_map s1) k of
             None \<Rightarrow> Inl Panic_frame_does_not_exist
           | Some a \<Rightarrow>
               (case kheap s1 a of
                  None \<Rightarrow> Inl Invalid_pointer
                | Some f \<Rightarrow>
                    Inr (lock_release
                      (s1\<lparr>kheap := (kheap s1)(a \<mapsto> f\<lparr>pinned := new_value\<rparr>)\<rparr>)))))"

definition vm_frame_unpin :: "vaddr \<Rightarrow> vm \<Rightarrow> error + vm" where
  "vm_frame_unpin k s = vm_frame_set_pinned k False s"

definition vm_frame_pin :: "vaddr \<Rightarrow> vm \<Rightarrow> error + vm" where
  "vm_frame_pin k s = vm_frame_set_pinned k True s"

subsection \<open>Reachable states\<close>

text \<open>
  The states the frame table can be in: \<open>vm_frame_init\<close> at kernel startup, over a pool of
  distinct free frames, and then any completed public operation. malloc returns either the
  null pointer or the address of a block that is not in use at the moment it is called. The
  MMU sets accessed bits, and the rest of the kernel maps pages and returns frames that are
  not registered to the pool (as it does at process exit, after \<open>vm_frame_remove_entry\<close>),
  between operations; the static storage around the list's tail sentinel changes as the
  kernel writes its own variables.
\<close>

inductive reachable :: "vm \<Rightarrow> bool" where
  init: "distinct (user_pool w) \<Longrightarrow> reachable (vm_frame_init w)"
| allocate:
    "reachable s \<Longrightarrow>
     (\<forall>frame_page s8 a. acquire_frame cur idx s = Inr (frame_page, s8) \<longrightarrow> m = Some a
        \<longrightarrow> kheap s8 a = None) \<Longrightarrow>
     vm_frame_allocate cur idx m upg s = Inr (r, s') \<Longrightarrow> reachable s'"
| free: "reachable s \<Longrightarrow> vm_frame_free k s = Inr s' \<Longrightarrow> reachable s'"
| remove_entry: "reachable s \<Longrightarrow> vm_frame_remove_entry k s = Inr s' \<Longrightarrow> reachable s'"
| pin: "reachable s \<Longrightarrow> vm_frame_pin k s = Inr s' \<Longrightarrow> reachable s'"
| unpin: "reachable s \<Longrightarrow> vm_frame_unpin k s = Inr s' \<Longrightarrow> reachable s'"
| mmu: "reachable s \<Longrightarrow> reachable (s\<lparr>accessed := A, present := P\<rparr>)"
| storage: "reachable s \<Longrightarrow> reachable (s\<lparr>tail_entry := t\<rparr>)"
| release:
    "reachable s \<Longrightarrow> k \<notin> set (user_pool s) \<Longrightarrow> k \<notin> fst ` set (frame_map s) \<Longrightarrow>
     reachable (s\<lparr>user_pool := k # user_pool s\<rparr>)"

text \<open>
  The consistency of the frame table between operations: the lock is free, the registry has
  one element per key and per entry, the eviction order has each entry once, both hold the
  same entries, every registered entry is a live record whose \<open>kpage\<close> is its key, and no
  registered frame is free in the pool.
\<close>

definition frame_inv :: "vm \<Rightarrow> bool" where
  "frame_inv s \<longleftrightarrow>
     \<not> frame_lock s \<and>
     distinct (map fst (frame_map s)) \<and>
     distinct (map snd (frame_map s)) \<and>
     distinct (frame_list s) \<and>
     snd ` set (frame_map s) = set (frame_list s) \<and>
     (\<forall>(k, a) \<in> set (frame_map s). \<exists>f. kheap s a = Some f \<and> kpage f = k) \<and>
     distinct (user_pool s) \<and>
     set (user_pool s) \<inter> fst ` set (frame_map s) = {}"

subsection \<open>Example states\<close>

text \<open>
  Thread \<open>p\<close> has the page directory \<open>p\<close> and the supplemental page table \<open>p\<close>. The
  machine at startup has one free user frame, and its static storage is zero.
\<close>

definition example_threads :: "thread_ptr \<Rightarrow> thread" where
  "example_threads p = \<lparr>pagedir = of_nat p, supt = p\<rparr>"

definition boot :: vm where
  "boot = \<lparr>frame_lock = False, frame_map = [], frame_list = [], clock_ptr = NULL,
     kheap = Map.empty, user_pool = [0xc0001000], threads = example_threads,
     accessed = {}, present = {},
     tail_entry = \<lparr>kpage = 0, upage = 0, thread_t = 0, pinned = False\<rparr>, calls = []\<rparr>"

text \<open>
  A second example: two frames owned by thread 1, the first pinned, neither accessed, and no
  frame free. The hand is on the last entry, so the next scan starts by passing the end of
  the list; the storage around the tail sentinel reads as a pinned entry.
\<close>

definition two_frames :: vm where
  "two_frames = \<lparr>frame_lock = False,
     frame_map = [(0xc0002000, 11), (0xc0001000, 10)], frame_list = [10, 11],
     clock_ptr = Lelem 11,
     kheap = [10 \<mapsto> \<lparr>kpage = 0xc0001000, upage = 0x08048000, thread_t = 1, pinned = True\<rparr>,
              11 \<mapsto> \<lparr>kpage = 0xc0002000, upage = 0x08049000, thread_t = 1, pinned = False\<rparr>],
     user_pool = [], threads = example_threads,
     accessed = {}, present = {(1, 0x08048000), (1, 0x08049000)},
     tail_entry = \<lparr>kpage = 0, upage = 0, thread_t = 0, pinned = True\<rparr>, calls = []\<rparr>"

text \<open>
  A third example: the same two frames, both unpinned and both accessed by thread 1, with
  the hand at its start. A scan needs a second lap to find a victim.
\<close>

definition two_accessed :: vm where
  "two_accessed = two_frames\<lparr>clock_ptr := NULL,
     kheap := [10 \<mapsto> \<lparr>kpage = 0xc0001000, upage = 0x08048000, thread_t = 1, pinned = False\<rparr>,
               11 \<mapsto> \<lparr>kpage = 0xc0002000, upage = 0x08049000, thread_t = 1, pinned = False\<rparr>],
     accessed := {(1, 0x08048000), (1, 0x08049000)}\<rparr>"

text \<open>
  The machine after thread 1 has allocated a frame for its page \<open>0x08048000\<close> at startup
  (malloc returned the block at 10), and after it has then allocated a frame for its page
  \<open>0x08049000\<close>, which evicts the first page (malloc returned the block at \<open>a\<close>).
\<close>

definition after_allocate :: vm where
  "after_allocate = boot\<lparr>frame_map := [(0xc0001000, 10)], frame_list := [10],
     kheap := [10 \<mapsto> \<lparr>kpage = 0xc0001000, upage = 0x08048000, thread_t = 1, pinned = False\<rparr>],
     user_pool := [],
     calls := [Palloc_get_page (Some 0xc0001000), Malloc (Some 10)]\<rparr>"

definition after_eviction :: "entry_ptr \<Rightarrow> vm" where
  "after_eviction a = boot\<lparr>frame_map := [(0xc0001000, a)], frame_list := [a],
     clock_ptr := Lelem 10,
     kheap := [a \<mapsto> \<lparr>kpage = 0xc0001000, upage = 0x08049000, thread_t = 1, pinned = False\<rparr>],
     user_pool := [],
     calls := [Palloc_get_page (Some 0xc0001000), Malloc (Some 10), Palloc_get_page None,
       Pagedir_is_accessed 1 0x08048000, Pagedir_clear_page 1 0x08048000,
       Swap_out 0xc0001000 0, Supt_set_swap 1 0x08048000 0, Palloc_free_page 0xc0001000,
       Free 10, Palloc_get_page (Some 0xc0001000), Malloc (Some a)]\<rparr>"

text \<open>
  The machine after the first allocation, once thread 1 has used its page: the accessed bit
  of the page is set in the page table of thread 1. One frame is registered, unpinned, and
  no frame is free. In the second state the frame has been pinned.
\<close>

definition one_frame :: vm where
  "one_frame = after_allocate\<lparr>accessed := {(1, 0x08048000)}, present := {(1, 0x08048000)}\<rparr>"

definition one_frame_pinned :: vm where
  "one_frame_pinned = one_frame\<lparr>
     kheap := [10 \<mapsto> \<lparr>kpage = 0xc0001000, upage = 0x08048000, thread_t = 1, pinned = True\<rparr>]\<rparr>"

text \<open>
  The machine after the first eviction, when malloc has handed the freed block out again
  for the new entry and thread 1 has used its new page: one frame is registered, unpinned
  and accessed, and the hand is on it, the last entry of the list. The storage around the
  tail sentinel holds \<open>t\<close>.
\<close>

definition hand_on_last :: "frame_table_entry \<Rightarrow> vm" where
  "hand_on_last t = (after_eviction 10)\<lparr>accessed := {(1, 0x08049000)},
     present := {(1, 0x08049000)}, tail_entry := t\<rparr>"

text \<open>
  The machine after the first eviction (the freed block handed out again), once the storage
  around the tail sentinel reads as a pinned entry, and after thread 1 has then allocated a
  frame for its page \<open>0x0804a000\<close>: the scan passes the end of the list and evicts the
  page \<open>0x08049000\<close> to swap slot 1 (malloc returned the block at 10 once more).
\<close>

definition before_second_eviction :: vm where
  "before_second_eviction = (after_eviction 10)\<lparr>
     tail_entry := \<lparr>kpage = 0, upage = 0, thread_t = 0, pinned = True\<rparr>\<rparr>"

definition after_second_eviction :: vm where
  "after_second_eviction = before_second_eviction\<lparr>
     kheap := [10 \<mapsto> \<lparr>kpage = 0xc0001000, upage = 0x0804a000, thread_t = 1, pinned = False\<rparr>],
     calls := calls before_second_eviction @
       [Palloc_get_page None, Pagedir_is_accessed 1 0x08049000,
        Pagedir_clear_page 1 0x08049000, Swap_out 0xc0001000 1, Supt_set_swap 1 0x08049000 1,
        Palloc_free_page 0xc0001000, Free 10, Palloc_get_page (Some 0xc0001000),
        Malloc (Some 10)]\<rparr>"


section \<open>Properties\<close>

lemmas scan_defs = clock_pick_evict_frame_def clock_loop.simps clock_next_frame_def entry_at_def
  hash_size_def list_empty_def list_begin_def list_end_def pagedir_is_accessed_def
  pagedir_set_accessed_def

lemmas op_defs = vm_frame_allocate_def acquire_frame_def vm_frame_do_free_def vm_frame_free_def
  vm_frame_remove_entry_def vm_frame_set_pinned_def vm_frame_pin_def vm_frame_unpin_def
  vm_frame_init_def lock_acquire_def lock_release_def lock_held_by_current_thread_def
  palloc_get_page_def palloc_free_page_def malloc_def free_def pagedir_clear_page_def
  vm_swap_out_def vm_supt_set_swap_def hash_find_def hash_insert_def list_remove_def
  list_push_back_def is_kernel_vaddr_def PHYS_BASE_def pg_ofs_def pg_round_down_def log_def

subsection \<open>The example runs\<close>

lemma boot_allocate:
  "vm_frame_allocate 1 0 (Some 10) 0x08048000 boot = Inr (Some 0xc0001000, after_allocate)"
  by (simp add: boot_def after_allocate_def op_defs example_threads_def)

lemma after_allocate_allocate:
  "vm_frame_allocate 1 0 (Some a) 0x08049000 after_allocate =
     Inr (Some 0xc0001000, after_eviction a)"
  by (simp add: boot_def after_allocate_def after_eviction_def op_defs scan_defs
      example_threads_def)

lemma reachable_boot: "reachable boot"
proof -
  have "reachable (vm_frame_init boot)"
    by (rule reachable.init) (simp add: boot_def)
  then show ?thesis
    by (simp add: boot_def vm_frame_init_def)
qed

lemma reachable_after_allocate: "reachable after_allocate"
proof (rule reachable.allocate [OF reachable_boot _ boot_allocate])
  show "\<forall>frame_page s8 a. acquire_frame 1 0 boot = Inr (frame_page, s8) \<longrightarrow> Some 10 = Some a
          \<longrightarrow> kheap s8 a = None"
    by (simp add: boot_def op_defs)
qed

lemma reachable_after_eviction: "reachable (after_eviction a)"
proof (rule reachable.allocate [OF reachable_after_allocate _ after_allocate_allocate])
  show "\<forall>frame_page s8 b. acquire_frame 1 0 after_allocate = Inr (frame_page, s8)
          \<longrightarrow> Some a = Some b \<longrightarrow> kheap s8 b = None"
    by (simp add: boot_def after_allocate_def op_defs scan_defs example_threads_def)
qed

lemma reachable_one_frame: "reachable one_frame"
  unfolding one_frame_def using reachable_after_allocate by (rule reachable.mmu)

lemma one_frame_pin: "vm_frame_pin 0xc0001000 one_frame = Inr one_frame_pinned"
  by (simp add: one_frame_pinned_def one_frame_def after_allocate_def boot_def op_defs)

lemma reachable_one_frame_pinned: "reachable one_frame_pinned"
  using reachable_one_frame one_frame_pin by (rule reachable.pin)

declare clock_loop.simps [simp del]


subsection \<open>The registry\<close>

lemma set_hash_delete:
  "distinct (map fst h) \<Longrightarrow> set (hash_delete h k) = {p \<in> set h. fst p \<noteq> k}"
  by (induction h) force+

lemma map_of_hash_delete:
  "distinct (map fst h) \<Longrightarrow> map_of (hash_delete h k) k = None"
  by (auto simp: map_of_eq_None_iff set_hash_delete)

lemma set_hash_delete_subset: "set (hash_delete h k) \<subseteq> set h"
  by (induction h) (auto split: if_splits)

lemma distinct_fst_hash_delete:
  "distinct (map fst h) \<Longrightarrow> distinct (map fst (hash_delete h k))"
proof (induction h)
  case (Cons p h)
  then show ?case
    using set_hash_delete_subset [of h k] by (cases p) (auto simp: image_iff)
qed simp

lemma distinct_snd_hash_delete:
  "distinct (map snd h) \<Longrightarrow> distinct (map snd (hash_delete h k))"
proof (induction h)
  case (Cons p h)
  then show ?case
    using set_hash_delete_subset [of h k] by (cases p) (auto simp: image_iff)
qed simp

lemma snd_set_hash_delete:
  assumes "distinct (map fst h)" and "distinct (map snd h)" and "map_of h k = Some a"
  shows "snd ` set (hash_delete h k) = snd ` set h - {a}"
proof -
  from assms(3) have ka: "(k, a) \<in> set h"
    by (rule map_of_SomeD)
  have key: "k' = k \<longleftrightarrow> a' = a" if "(k', a') \<in> set h" for k' a'
  proof
    assume "k' = k"
    with that ka assms(1) show "a' = a"
      by (auto dest: eq_key_imp_eq_value)
  next
    assume "a' = a"
    from assms(2) have "inj_on snd (set h)"
      by (simp add: distinct_map)
    from inj_onD [OF this, of "(k', a')" "(k, a)"] that ka \<open>a' = a\<close> show "k' = k"
      by simp
  qed
  show ?thesis
  proof (intro set_eqI iffI)
    fix x assume "x \<in> snd ` set (hash_delete h k)"
    then obtain k' where "(k', x) \<in> set h" "k' \<noteq> k"
      by (auto simp: set_hash_delete [OF assms(1)])
    with key show "x \<in> snd ` set h - {a}"
      by force
  next
    fix x assume "x \<in> snd ` set h - {a}"
    then obtain k' where "(k', x) \<in> set h" "x \<noteq> a"
      by auto
    with key have "(k', x) \<in> set (hash_delete h k)"
      by (auto simp: set_hash_delete [OF assms(1)])
    then show "x \<in> snd ` set (hash_delete h k)"
      by force
  qed
qed

lemma lock_round_trip: "\<not> frame_lock s \<Longrightarrow> lock_release (s\<lparr>frame_lock := True\<rparr>) = s"
  by (cases s) (simp add: lock_release_def)

subsection \<open>The scan\<close>

lemma list_begin_Lelem: "list_begin l = Lelem a \<Longrightarrow> a \<in> set l"
  by (cases l) (simp_all add: list_begin_def)

lemma list_next_Lelem:
  assumes "list_next l p = Inr (Lelem b)"
  shows "b \<in> set l"
proof (cases p)
  case (Lelem a)
  with assms have "b \<in> set (tl (dropWhile (\<lambda>x. x \<noteq> a) l))"
    by (auto split: if_splits dest: list_begin_Lelem)
  then have "b \<in> set (dropWhile (\<lambda>x. x \<noteq> a) l)"
    by (cases "dropWhile (\<lambda>x. x \<noteq> a) l") simp_all
  then show ?thesis
    by (rule set_dropWhileD)
qed (use assms in simp_all)

lemma clock_next_frame_Inr:
  assumes "clock_next_frame s = Inr (p, s1)"
  shows "s1 = s\<lparr>clock_ptr := p\<rparr>" and "p = Lelem a \<Longrightarrow> a \<in> set (frame_list s)"
  using assms
  by (auto simp: clock_next_frame_def split: if_splits sum.splits
           dest: list_begin_Lelem list_next_Lelem)

lemma entry_at_frame:
  "kheap s' = kheap s \<Longrightarrow> tail_entry s' = tail_entry s \<Longrightarrow> entry_at s' p = entry_at s p"
  by (cases p) (simp_all add: entry_at_def)

text \<open>
  A scan that returns changes nothing but the hand, the accessed bits and the call log. The
  pointer it returns is where the hand is; the \<open>pinned\<close> flag read through it is false;
  and when it points at an entry, the entry is in the eviction order.
\<close>

lemma clock_loop_victim:
  "clock_loop pd n it s = Inr (e, s') \<Longrightarrow>
     (\<exists>f. entry_at s e = Inr f \<and> \<not> pinned f) \<and> (\<forall>a. e = Lelem a \<longrightarrow> a \<in> set (frame_list s)) \<and>
     s' = s\<lparr>clock_ptr := e, accessed := accessed s', calls := calls s'\<rparr>"
proof (induction pd n it s rule: clock_loop.induct)
  case (1 pd n it s)
  from "1.prems" have le: "it \<le> n + n"
    by (subst (asm) clock_loop.simps) (simp split: if_splits)
  from "1.prems" le obtain p s1 where nf: "clock_next_frame s = Inr (p, s1)"
    by (subst (asm) clock_loop.simps) (auto split: sum.splits)
  from "1.prems" le nf obtain f where ea: "entry_at s1 p = Inr f"
    by (subst (asm) clock_loop.simps) (auto split: sum.splits)
  note s1 = clock_next_frame_Inr(1) [OF nf]
  have ea1: "entry_at s1 q = entry_at s q" for q
    by (rule entry_at_frame) (simp_all add: s1)
  have pl: "\<forall>a. p = Lelem a \<longrightarrow> a \<in> set (frame_list s)"
    using clock_next_frame_Inr(2) [OF nf] by blast
  show ?case
  proof (cases "pinned f")
    case True
    with "1.prems" le nf ea have "clock_loop pd n (Suc it) s1 = Inr (e, s')"
      by (subst (asm) clock_loop.simps) simp
    from "1.IH"(1) [OF le nf refl ea True this]
    have "\<exists>g. entry_at s1 e = Inr g \<and> \<not> pinned g"
      and "\<forall>a. e = Lelem a \<longrightarrow> a \<in> set (frame_list s1)"
      and "s' = s1\<lparr>clock_ptr := e, accessed := accessed s', calls := calls s'\<rparr>"
      by blast+
    then show ?thesis
      by (simp add: ea1) (simp add: s1)
  next
    case False
    obtain acc s2 where ia: "pagedir_is_accessed pd (upage f) s1 = (acc, s2)"
      by (cases "pagedir_is_accessed pd (upage f) s1")
    then have s2: "s2 = log (Pagedir_is_accessed pd (upage f)) s1"
      by (simp add: pagedir_is_accessed_def)
    let ?s3 = "pagedir_set_accessed pd (upage f) False s2"
    have ea3: "entry_at ?s3 q = entry_at s q" for q
      by (rule entry_at_frame) (simp_all add: s1 s2 pagedir_set_accessed_def log_def)
    show ?thesis
    proof (cases acc)
      case True
      with "1.prems" le nf ea False ia
      have "clock_loop pd n (Suc it) ?s3 = Inr (e, s')"
        by (subst (asm) clock_loop.simps) simp
      moreover from True have "acc = True"
        by simp
      ultimately
      have "\<exists>g. entry_at ?s3 e = Inr g \<and> \<not> pinned g"
        and "\<forall>a. e = Lelem a \<longrightarrow> a \<in> set (frame_list ?s3)"
        and "s' = ?s3\<lparr>clock_ptr := e, accessed := accessed s', calls := calls s'\<rparr>"
        using "1.IH"(2) [OF le nf refl ea False ia [symmetric]] by blast+
      then show ?thesis
        by (simp add: ea3) (simp add: s1 s2 pagedir_set_accessed_def log_def)
    next
      case acc: False
      with "1.prems" le nf ea False ia have "e = p" "s' = s2"
        by (subst (asm) clock_loop.simps; simp)+
      with ea False pl show ?thesis
        by (simp add: ea1) (simp add: s1 s2 log_def)
    qed
  qed
qed

lemma clock_pick_evict_frame_Inr:
  assumes "clock_pick_evict_frame pd s = Inr (e, s')"
  shows "\<exists>f. entry_at s e = Inr f \<and> \<not> pinned f" and "\<forall>a. e = Lelem a \<longrightarrow> a \<in> set (frame_list s)"
    and "s' = s\<lparr>clock_ptr := e, accessed := accessed s', calls := calls s'\<rparr>"
proof -
  from assms have "clock_loop pd (hash_size (frame_map s)) 0 s = Inr (e, s')"
    by (simp add: clock_pick_evict_frame_def Let_def split: if_splits)
  from clock_loop_victim [OF this]
  show "\<exists>f. entry_at s e = Inr f \<and> \<not> pinned f"
    and "\<forall>a. e = Lelem a \<longrightarrow> a \<in> set (frame_list s)"
    and "s' = s\<lparr>clock_ptr := e, accessed := accessed s', calls := calls s'\<rparr>"
    by blast+
qed

text \<open>
  C1. Whatever the frame table, the hand and the storage around the list's tail sentinel
  are, and however many steps the scan takes, the pointer \<open>clock_pick_evict_frame\<close>
  returns is not null, and the \<open>pinned\<close> flag the code reads through it is false before
  and after the scan. When it points at an entry, the entry is in the eviction order and
  its \<open>pinned\<close> flag is false: an entry whose \<open>pinned\<close> flag is true is never returned.
  When it is the structure around the tail sentinel, the storage there reads as unpinned.
\<close>

theorem pinned_never_victim:
  assumes "clock_pick_evict_frame pd s = Inr (e, s')"
  shows "e \<noteq> NULL \<and>
         (\<forall>a. e = Lelem a \<longrightarrow>
            a \<in> set (frame_list s) \<and>
            (\<exists>f. kheap s a = Some f \<and> kheap s' a = Some f \<and> \<not> pinned f)) \<and>
         (e = Tail \<longrightarrow> \<not> pinned (tail_entry s) \<and> \<not> pinned (tail_entry s'))"
proof -
  from assms have "clock_loop pd (hash_size (frame_map s)) 0 s = Inr (e, s')"
    by (simp add: clock_pick_evict_frame_def Let_def split: if_splits)
  from clock_loop_victim [OF this]
  obtain f where f: "entry_at s e = Inr f" "\<not> pinned f"
    and l: "\<forall>a. e = Lelem a \<longrightarrow> a \<in> set (frame_list s)"
    and s': "s' = s\<lparr>clock_ptr := e, accessed := accessed s', calls := calls s'\<rparr>"
    by blast
  from s' have same: "kheap s' = kheap s" "tail_entry s' = tail_entry s"
    by (cases s, cases s', simp)+
  from f l show ?thesis
    by (cases e) (auto simp: entry_at_def same split: option.splits)
qed

theorem pinned_never_victim_witness:
  "clock_pick_evict_frame 1 two_accessed =
     Inr (Lelem 10, two_accessed\<lparr>clock_ptr := Lelem 10, accessed := {},
       calls := [Pagedir_is_accessed 1 0x08048000, Pagedir_set_accessed 1 0x08048000 False,
                 Pagedir_is_accessed 1 0x08049000, Pagedir_set_accessed 1 0x08049000 False,
                 Pagedir_is_accessed 1 0x08048000]\<rparr>) \<and>
   10 \<in> set (frame_list two_accessed) \<and>
   (\<exists>f. kheap two_accessed 10 = Some f \<and> \<not> pinned f) \<and>
   clock_pick_evict_frame 1 (two_accessed\<lparr>tail_entry := tail_entry boot\<rparr>) =
     Inr (Tail, two_accessed\<lparr>tail_entry := tail_entry boot, clock_ptr := Tail, accessed := {},
       calls := [Pagedir_is_accessed 1 0x08048000, Pagedir_set_accessed 1 0x08048000 False,
                 Pagedir_is_accessed 1 0x08049000, Pagedir_set_accessed 1 0x08049000 False,
                 Pagedir_is_accessed 1 0]\<rparr>) \<and>
   \<not> pinned (tail_entry (two_accessed\<lparr>tail_entry := tail_entry boot\<rparr>))"
proof -
  have h: "clock_pick_evict_frame 1 two_accessed =
     Inr (Lelem 10, two_accessed\<lparr>clock_ptr := Lelem 10, accessed := {},
       calls := [Pagedir_is_accessed 1 0x08048000, Pagedir_set_accessed 1 0x08048000 False,
                 Pagedir_is_accessed 1 0x08049000, Pagedir_set_accessed 1 0x08049000 False,
                 Pagedir_is_accessed 1 0x08048000]\<rparr>)"
    by (simp add: two_accessed_def two_frames_def scan_defs log_def pg_round_down_def
        insert_Diff_if)
  have h': "clock_pick_evict_frame 1 (two_accessed\<lparr>tail_entry := tail_entry boot\<rparr>) =
     Inr (Tail, two_accessed\<lparr>tail_entry := tail_entry boot, clock_ptr := Tail, accessed := {},
       calls := [Pagedir_is_accessed 1 0x08048000, Pagedir_set_accessed 1 0x08048000 False,
                 Pagedir_is_accessed 1 0x08049000, Pagedir_set_accessed 1 0x08049000 False,
                 Pagedir_is_accessed 1 0]\<rparr>)"
    by (simp add: two_accessed_def two_frames_def boot_def scan_defs log_def pg_round_down_def
        insert_Diff_if)
  from pinned_never_victim [OF h] pinned_never_victim [OF h'] h h' show ?thesis
    by simp
qed

lemma reachable_hand_on_last: "reachable (hand_on_last t)"
  unfolding hand_on_last_def
  by (rule reachable.storage, rule reachable.mmu, rule reachable_after_eviction)

text \<open>
  C2. The scan makes at most \<open>2n + 1\<close> steps, but an unpinned entry does not make it
  return that entry within them. Take the table after the first eviction: one entry,
  unpinned, its page accessed, and the hand on it, the last entry of the list. Step 1 moves
  the hand to the tail sentinel and reads the storage around it as an entry, step 2 wraps to
  the entry and clears its accessed bit, step 3 is on the sentinel again, and the bound
  \<open>2n + 1 = 3\<close> is used up. Whatever the storage \<open>t\<close> around the sentinel holds, the
  scan ends in the out-of-memory panic (when \<open>t\<close> reads as pinned) or returns the structure
  around the sentinel, which is no entry; the one exception is storage that reads as
  unpinned with a \<open>upage\<close> in the very page of the entry, where the read through the
  sentinel clears the entry's accessed bit.
\<close>

theorem scan_misses_unpinned_entry:
  "reachable (hand_on_last t) \<and>
   hash_size (frame_map (hand_on_last t)) = 1 \<and>
   frame_list (hand_on_last t) = [10] \<and> clock_ptr (hand_on_last t) = Lelem 10 \<and>
   kheap (hand_on_last t) 10 =
     Some \<lparr>kpage = 0xc0001000, upage = 0x08049000, thread_t = 1, pinned = False\<rparr> \<and>
   map_sum id fst
     (clock_pick_evict_frame (pagedir (threads (hand_on_last t) 1)) (hand_on_last t)) =
     (if pinned t then Inl Panic_not_enough_memory
      else if pg_round_down (upage t) = 0x08049000 then Inr (Lelem 10)
      else Inr Tail)"
proof -
  have "pg_round_down 0x08049000 = 0x08049000"
    by (simp add: pg_round_down_def)
  then show ?thesis
    using reachable_hand_on_last [of t]
    by (cases "pinned t"; cases "pg_round_down (upage t) = 0x08049000")
      (simp_all add: hand_on_last_def after_eviction_def boot_def scan_defs log_def
        example_threads_def)
qed

text \<open>
  C3. The scan queries the accessed bit in the page table it is given, which
  \<open>vm_frame_allocate\<close> takes from the calling thread. When thread 2 allocates and the only
  frame belongs to thread 1, whose page table has the accessed bit of the page set, the
  scan asks thread 2's page table about that address, finds no bit there and returns the
  entry at once; the bit in the owner's page table is neither read nor cleared.
\<close>

theorem scan_queries_callers_page_table:
  "reachable one_frame \<and>
   kheap one_frame 10 =
     Some \<lparr>kpage = 0xc0001000, upage = 0x08048000, thread_t = 1, pinned = False\<rparr> \<and>
   (pagedir (threads one_frame 1), 0x08048000) \<in> accessed one_frame \<and>
   pagedir (threads one_frame 2) \<noteq> pagedir (threads one_frame 1) \<and>
   clock_pick_evict_frame (pagedir (threads one_frame 2)) one_frame =
     Inr (Lelem 10, one_frame\<lparr>clock_ptr := Lelem 10,
                calls := calls one_frame @
                  [Pagedir_is_accessed (pagedir (threads one_frame 2)) 0x08048000]\<rparr>)"
  using reachable_one_frame
  by (simp add: one_frame_def after_allocate_def boot_def scan_defs log_def example_threads_def
      pg_round_down_def)

text \<open>
  C5. When malloc fails, \<open>vm_frame_allocate\<close> returns the null pointer and links no entry,
  but it does not give the frame it has acquired back to the pool: at startup, with one free
  frame, a failed allocation leaves the pool empty and the frame in no entry, and the only
  calls made are the acquisition and the malloc.
\<close>

theorem malloc_failure_leaks_frame:
  "user_pool boot = [0xc0001000] \<and>
   vm_frame_allocate 1 0 None 0x08048000 boot =
     Inr (None, boot\<lparr>user_pool := [],
                  calls := [Palloc_get_page (Some 0xc0001000), Malloc None]\<rparr>)"
  by (simp add: boot_def op_defs)

text \<open>
  C7. \<open>vm_frame_do_free\<close> does not touch \<open>clock_ptr\<close>. After the first eviction the hand
  is still on the evicted entry, which is no longer in the eviction order and whose record
  has been freed; the next scan follows the links of that freed record.
\<close>

theorem hand_left_on_removed_entry:
  "reachable (after_eviction 11) \<and>
   vm_frame_allocate 1 0 (Some 11) 0x08049000 after_allocate =
     Inr (Some 0xc0001000, after_eviction 11) \<and>
   clock_ptr (after_eviction 11) = Lelem 10 \<and>
   10 \<notin> set (frame_list (after_eviction 11)) \<and>
   kheap (after_eviction 11) 10 = None \<and>
   clock_next_frame (after_eviction 11) = Inl Invalid_pointer"
  using reachable_after_eviction [of 11] after_allocate_allocate [of 11]
  by (simp add: after_eviction_def boot_def scan_defs)

text \<open>
  C8. With the hand on the last entry of the eviction order, \<open>clock_next_frame\<close> moves it
  to the tail sentinel of the list and returns the structure around the sentinel, which is
  not an entry: what is read through it is the storage next to the list. The wrap to the
  first entry happens one call later. The state is the one
  after the first eviction when malloc hands the freed block out again.
\<close>

theorem next_frame_returns_list_tail:
  "reachable (after_eviction 10) \<and>
   frame_list (after_eviction 10) = [10] \<and>
   clock_ptr (after_eviction 10) = Lelem 10 \<and>
   clock_next_frame (after_eviction 10) =
     Inr (Tail, (after_eviction 10)\<lparr>clock_ptr := Tail\<rparr>) \<and>
   entry_at ((after_eviction 10)\<lparr>clock_ptr := Tail\<rparr>) Tail =
     Inr (tail_entry (after_eviction 10)) \<and>
   Tail \<notin> Lelem ` set (frame_list (after_eviction 10)) \<and>
   clock_next_frame ((after_eviction 10)\<lparr>clock_ptr := Tail\<rparr>) =
     Inr (Lelem 10, (after_eviction 10)\<lparr>clock_ptr := Lelem 10\<rparr>)"
  using reachable_after_eviction [of 10]
  by (simp add: after_eviction_def boot_def scan_defs)

subsection \<open>Freeing\<close>

text \<open>
  C9. The claim as stated fails for an address that is not a page-aligned kernel address:
  at startup no frame is registered, and freeing the user address \<open>0x08048000\<close> stops at
  the assertion of \<open>vm_frame_do_free\<close> instead of returning.
\<close>

theorem free_absent_user_address_asserts:
  "hash_find (frame_map boot) 0x08048000 = None \<and>
   vm_frame_free 0x08048000 boot = Inl Assert_is_kernel_vaddr \<and>
   vm_frame_remove_entry 0x08048000 boot = Inl Assert_is_kernel_vaddr"
  by (simp add: boot_def op_defs)

text \<open>
  C9, amended. For a page-aligned kernel address \<open>k\<close>, in a state where the lock is free
  and the registry has one element per key: when no entry is registered for \<open>k\<close>,
  \<open>vm_frame_free\<close> and \<open>vm_frame_remove_entry\<close> return without an error and leave the
  whole state as it was, registry, eviction order and hand included; and after either of
  them has returned for \<open>k\<close>, calling either again changes nothing.
\<close>

theorem free_absent_is_noop:
  assumes "\<not> frame_lock s" and "distinct (map fst (frame_map s))"
    and "is_kernel_vaddr k" and "pg_ofs k = 0"
  shows "(hash_find (frame_map s) k = None \<longrightarrow>
            vm_frame_free k s = Inr s \<and> vm_frame_remove_entry k s = Inr s) \<and>
         (vm_frame_free k s = Inr s1 \<or> vm_frame_remove_entry k s = Inr s1 \<longrightarrow>
            vm_frame_free k s1 = Inr s1 \<and> vm_frame_remove_entry k s1 = Inr s1)"
proof (intro conjI impI)
  assume "hash_find (frame_map s) k = None"
  with assms show "vm_frame_free k s = Inr s" "vm_frame_remove_entry k s = Inr s"
    by (simp_all add: vm_frame_free_def vm_frame_remove_entry_def vm_frame_do_free_def
        lock_acquire_def lock_held_by_current_thread_def lock_round_trip)
next
  assume "vm_frame_free k s = Inr s1 \<or> vm_frame_remove_entry k s = Inr s1"
  with assms have "\<not> frame_lock s1 \<and> hash_find (frame_map s1) k = None"
    by (auto simp: vm_frame_free_def vm_frame_remove_entry_def vm_frame_do_free_def
        lock_acquire_def lock_held_by_current_thread_def lock_release_def hash_find_def
        palloc_free_page_def free_def log_def map_of_hash_delete Let_def
        split: option.splits)
  with assms show "vm_frame_free k s1 = Inr s1" "vm_frame_remove_entry k s1 = Inr s1"
    by (simp_all add: vm_frame_free_def vm_frame_remove_entry_def vm_frame_do_free_def
        lock_acquire_def lock_held_by_current_thread_def lock_round_trip)
qed

theorem free_absent_is_noop_witness:
  "\<not> frame_lock after_allocate \<and> distinct (map fst (frame_map after_allocate)) \<and>
   is_kernel_vaddr 0xc0001000 \<and> pg_ofs 0xc0001000 = 0 \<and>
   is_kernel_vaddr 0xc0002000 \<and> pg_ofs 0xc0002000 = 0 \<and>
   hash_find (frame_map after_allocate) 0xc0002000 = None \<and>
   vm_frame_free 0xc0002000 after_allocate = Inr after_allocate \<and>
   vm_frame_remove_entry 0xc0002000 after_allocate = Inr after_allocate \<and>
   vm_frame_free 0xc0001000 after_allocate =
     Inr (boot\<lparr>calls := calls after_allocate @ [Palloc_free_page 0xc0001000, Free 10]\<rparr>) \<and>
   vm_frame_free 0xc0001000
       (boot\<lparr>calls := calls after_allocate @ [Palloc_free_page 0xc0001000, Free 10]\<rparr>) =
     Inr (boot\<lparr>calls := calls after_allocate @ [Palloc_free_page 0xc0001000, Free 10]\<rparr>)"
proof -
  have h: "\<not> frame_lock after_allocate" "distinct (map fst (frame_map after_allocate))"
    "is_kernel_vaddr 0xc0001000" "pg_ofs 0xc0001000 = 0"
    "is_kernel_vaddr 0xc0002000" "pg_ofs 0xc0002000 = 0"
    by (simp_all add: after_allocate_def boot_def is_kernel_vaddr_def PHYS_BASE_def pg_ofs_def)
  have absent: "hash_find (frame_map after_allocate) 0xc0002000 = None"
    by (simp add: after_allocate_def boot_def hash_find_def)
  have first: "vm_frame_free 0xc0001000 after_allocate =
     Inr (boot\<lparr>calls := calls after_allocate @ [Palloc_free_page 0xc0001000, Free 10]\<rparr>)"
    by (simp add: after_allocate_def boot_def op_defs)
  from free_absent_is_noop [OF h(1,2,5,6)] absent
    free_absent_is_noop [OF h(1,2,3,4), of
      "boot\<lparr>calls := calls after_allocate @ [Palloc_free_page 0xc0001000, Free 10]\<rparr>"]
    first h
  show ?thesis
    by simp
qed

text \<open>
  C10. \<open>vm_frame_free\<close> and \<open>vm_frame_remove_entry\<close> require a page-aligned kernel
  address: called with any other address, whether or not a frame is registered for it, they
  stop at the assertion \<open>is_kernel_vaddr (kpage)\<close> or at the assertion
  \<open>pg_ofs (kpage) == 0\<close> of \<open>vm_frame_do_free\<close> and do not return.
\<close>

theorem free_asserts_page_aligned_kernel_address:
  assumes "\<not> frame_lock s" and "\<not> (is_kernel_vaddr k \<and> pg_ofs k = 0)"
  shows "vm_frame_free k s =
           Inl (if is_kernel_vaddr k then Assert_pg_ofs else Assert_is_kernel_vaddr) \<and>
         vm_frame_remove_entry k s =
           Inl (if is_kernel_vaddr k then Assert_pg_ofs else Assert_is_kernel_vaddr)"
  using assms
  by (auto simp: vm_frame_free_def vm_frame_remove_entry_def vm_frame_do_free_def
      lock_acquire_def lock_held_by_current_thread_def)

theorem free_asserts_page_aligned_kernel_address_witness:
  "\<not> frame_lock after_allocate \<and>
   \<not> (is_kernel_vaddr 0xc0001004 \<and> pg_ofs 0xc0001004 = 0) \<and>
   vm_frame_free 0xc0001004 after_allocate = Inl Assert_pg_ofs \<and>
   vm_frame_remove_entry 0xc0001004 after_allocate = Inl Assert_pg_ofs \<and>
   \<not> (is_kernel_vaddr 0x1000 \<and> pg_ofs 0x1000 = 0) \<and>
   vm_frame_free 0x1000 after_allocate = Inl Assert_is_kernel_vaddr \<and>
   vm_frame_remove_entry 0x1000 after_allocate = Inl Assert_is_kernel_vaddr"
proof -
  have l: "\<not> frame_lock after_allocate"
    by (simp add: after_allocate_def boot_def)
  have a: "\<not> (is_kernel_vaddr 0xc0001004 \<and> pg_ofs 0xc0001004 = 0)"
    and ka: "is_kernel_vaddr 0xc0001004"
    by (simp_all add: is_kernel_vaddr_def PHYS_BASE_def pg_ofs_def)
  have b: "\<not> (is_kernel_vaddr 0x1000 \<and> pg_ofs 0x1000 = 0)"
    and kb: "\<not> is_kernel_vaddr 0x1000"
    by (simp_all add: is_kernel_vaddr_def PHYS_BASE_def pg_ofs_def)
  from free_asserts_page_aligned_kernel_address [OF l a]
    free_asserts_page_aligned_kernel_address [OF l b] l a b ka kb
  show ?thesis
    by simp
qed

subsection \<open>Consistency of the frame table\<close>



lemma vm_frame_do_free_inv:
  assumes "frame_inv (s\<lparr>frame_lock := False\<rparr>)" and "vm_frame_do_free k fp s = Inr s'"
  shows "frame_inv (s'\<lparr>frame_lock := False\<rparr>)"
proof (cases "hash_find (frame_map s) k")
  case None
  with assms show ?thesis
    by (simp add: vm_frame_do_free_def split: if_splits)
next
  case (Some a)
  let ?h = "frame_map s"
  from assms(1) have dk: "distinct (map fst ?h)" and ds: "distinct (map snd ?h)"
    and dl: "distinct (frame_list s)" and eq: "snd ` set ?h = set (frame_list s)"
    and hp: "\<forall>(k, a) \<in> set ?h. \<exists>f. kheap s a = Some f \<and> kpage f = k"
    and dp: "distinct (user_pool s)" and pk: "set (user_pool s) \<inter> fst ` set ?h = {}"
    by (simp_all add: frame_inv_def)
  from Some have mo: "map_of ?h k = Some a"
    by (simp add: hash_find_def)
  then have ka: "(k, a) \<in> set ?h"
    by (rule map_of_SomeD)
  from Some assms(2) have s': "s' = free a ((if fp then palloc_free_page k else id)
      (s\<lparr>frame_map := hash_delete ?h k, frame_list := list_remove a (frame_list s)\<rparr>))"
    by (simp add: vm_frame_do_free_def Let_def split: if_splits)
  have 1: "distinct (map fst (hash_delete ?h k))"
    using dk by (rule distinct_fst_hash_delete)
  have 2: "distinct (map snd (hash_delete ?h k))"
    using ds by (rule distinct_snd_hash_delete)
  have 3: "distinct (list_remove a (frame_list s))"
    using dl by (simp add: list_remove_def)
  have 4: "snd ` set (hash_delete ?h k) = set (list_remove a (frame_list s))"
    using snd_set_hash_delete [OF dk ds mo] dl eq by (simp add: list_remove_def)
  have 5: "\<forall>(k', a') \<in> set (hash_delete ?h k). \<exists>f. ((kheap s)(a := None)) a' = Some f \<and> kpage f = k'"
  proof (clarify)
    fix k' a' assume m: "(k', a') \<in> set (hash_delete ?h k)"
    then have m': "(k', a') \<in> set ?h"
      using set_hash_delete_subset by blast
    from m have "a' \<in> snd ` set (hash_delete ?h k)"
      by force
    then have "a' \<noteq> a"
      by (simp add: snd_set_hash_delete [OF dk ds mo])
    with hp m' show "\<exists>f. ((kheap s)(a := None)) a' = Some f \<and> kpage f = k'"
      by auto
  qed
  have 6: "k \<notin> set (user_pool s)"
    using pk ka by force
  have 7: "k \<notin> fst ` set (hash_delete ?h k)"
    by (auto simp: set_hash_delete [OF dk])
  have 8: "set (user_pool s) \<inter> fst ` set (hash_delete ?h k) = {}"
    using pk set_hash_delete_subset [of ?h k] by blast
  show ?thesis
    using 1 2 3 4 5 6 7 8 dp
    by (cases fp) (simp_all add: s' frame_inv_def free_def palloc_free_page_def log_def)
qed

lemma palloc_get_page_inv:
  assumes "frame_inv (s\<lparr>frame_lock := False\<rparr>)" and "palloc_get_page s = (Some fp, s')"
  shows "frame_inv (s'\<lparr>frame_lock := False\<rparr>)" and "fp \<notin> fst ` set (frame_map s')"
    and "fp \<notin> set (user_pool s')"
proof -
  from assms(2) obtain ks where p: "user_pool s = fp # ks"
    and s': "s' = log (Palloc_get_page (Some fp)) (s\<lparr>user_pool := ks\<rparr>)"
    by (auto simp: palloc_get_page_def split: list.splits)
  from assms(1) p have "fp \<notin> fst ` set (frame_map s)"
    and "set ks \<inter> fst ` set (frame_map s) = {}" and "distinct ks" and "fp \<notin> set ks"
    by (simp_all add: frame_inv_def)
  with assms(1) show "frame_inv (s'\<lparr>frame_lock := False\<rparr>)"
    and "fp \<notin> fst ` set (frame_map s')" and "fp \<notin> set (user_pool s')"
    by (simp_all add: s' frame_inv_def log_def)
qed

lemma acquire_frame_cases:
  assumes "acquire_frame cur idx s = Inr (fp, s8)"
  obtains (direct) ks where "\<not> frame_lock s" and "user_pool s = fp # ks"
      and "s8 = log (Palloc_get_page (Some fp)) (s\<lparr>frame_lock := True, user_pool := ks\<rparr>)"
  | (evict) e f s2 s6 where "\<not> frame_lock s" and "user_pool s = []"
      and "clock_pick_evict_frame (pagedir (threads s cur))
             (log (Palloc_get_page None) (s\<lparr>frame_lock := True\<rparr>)) = Inr (e, s2)"
      and "entry_at s2 e = Inr f" and "thread_t f \<noteq> 0"
      and "pagedir (threads s2 (thread_t f)) \<noteq> 0xcccccccc"
      and "vm_frame_do_free (kpage f) True
             (vm_supt_set_swap (supt (threads s2 (thread_t f))) (upage f) idx
               (log (Swap_out (kpage f) idx)
                 (pagedir_clear_page (pagedir (threads s2 (thread_t f))) (upage f) s2))) = Inr s6"
      and "palloc_get_page s6 = (Some fp, s8)"
proof -
  from assms have nl: "\<not> frame_lock s"
    by (auto simp: acquire_frame_def lock_acquire_def split: if_splits)
  show ?thesis
  proof (cases "user_pool s")
    case (Cons k ks)
    with assms nl have "fp = k"
      and "s8 = log (Palloc_get_page (Some fp)) (s\<lparr>frame_lock := True, user_pool := ks\<rparr>)"
      by (auto simp: acquire_frame_def lock_acquire_def palloc_get_page_def)
    with nl Cons show ?thesis
      by (intro direct) simp_all
  next
    case Nil
    let ?s1 = "log (Palloc_get_page None) (s\<lparr>frame_lock := True\<rparr>)"
    from Nil have pg: "palloc_get_page (s\<lparr>frame_lock := True\<rparr>) = (None, ?s1)"
      by (simp add: palloc_get_page_def)
    have th: "threads ?s1 = threads s"
      by (simp add: log_def)
    from assms nl pg obtain e s2 where
      pick: "clock_pick_evict_frame (pagedir (threads s cur)) ?s1 = Inr (e, s2)"
      by (auto simp: acquire_frame_def lock_acquire_def th split: sum.splits)
    from assms nl pg pick obtain f where f: "entry_at s2 e = Inr f"
      by (auto simp: acquire_frame_def lock_acquire_def th split: sum.splits)
    from assms nl pg pick f have t: "thread_t f \<noteq> 0"
      and pd: "pagedir (threads s2 (thread_t f)) \<noteq> 0xcccccccc"
      by (auto simp: acquire_frame_def lock_acquire_def th split: if_splits)
    let ?s5 = "vm_supt_set_swap (supt (threads s2 (thread_t f))) (upage f) idx
               (log (Swap_out (kpage f) idx)
                 (pagedir_clear_page (pagedir (threads s2 (thread_t f))) (upage f) s2))"
    have th4: "threads (log (Swap_out (kpage f) idx)
                 (pagedir_clear_page (pagedir (threads s2 (thread_t f))) (upage f) s2)) = threads s2"
      by (simp add: log_def pagedir_clear_page_def)
    from assms nl pg pick f t pd obtain s6 where
      fr: "vm_frame_do_free (kpage f) True ?s5 = Inr s6"
      by (auto simp: acquire_frame_def lock_acquire_def th th4 vm_swap_out_def Let_def
          split: sum.splits)
    from assms nl pg pick f t pd fr have "palloc_get_page s6 = (Some fp, s8)"
      by (auto simp: acquire_frame_def lock_acquire_def th th4 vm_swap_out_def Let_def
          split: prod.splits option.splits)
    with nl Nil pick f t pd fr show ?thesis
      by (intro evict)
  qed
qed

lemma clock_pick_evict_frame_fields:
  assumes "clock_pick_evict_frame pd s = Inr (a, s')"
  shows "frame_lock s' = frame_lock s" and "frame_map s' = frame_map s"
    and "frame_list s' = frame_list s" and "kheap s' = kheap s"
    and "user_pool s' = user_pool s" and "threads s' = threads s"
    and "present s' = present s" and "tail_entry s' = tail_entry s" and "clock_ptr s' = a"
  using clock_pick_evict_frame_Inr(3) [OF assms]
  by (cases s, cases s', simp)+

lemma frame_inv_fields:
  assumes "frame_map s' = frame_map s" and "frame_list s' = frame_list s"
    and "kheap s' = kheap s" and "user_pool s' = user_pool s"
  shows "frame_inv (s'\<lparr>frame_lock := False\<rparr>) = frame_inv (s\<lparr>frame_lock := False\<rparr>)"
  using assms by (simp add: frame_inv_def)

lemma frame_inv_unlocked: "frame_inv s \<Longrightarrow> frame_inv (s\<lparr>frame_lock := False\<rparr>)"
  by (simp add: frame_inv_def)

lemma acquire_frame_inv:
  assumes "frame_inv s" and "acquire_frame cur idx s = Inr (fp, s8)"
  shows "frame_inv (s8\<lparr>frame_lock := False\<rparr>)" and "fp \<notin> fst ` set (frame_map s8)"
    and "fp \<notin> set (user_pool s8)"
proof -
  have "frame_inv (s8\<lparr>frame_lock := False\<rparr>) \<and> fp \<notin> fst ` set (frame_map s8) \<and>
        fp \<notin> set (user_pool s8)"
    using assms(2)
  proof (cases rule: acquire_frame_cases)
    case (direct ks)
    with assms(1) show ?thesis
      by (simp add: frame_inv_def log_def)
  next
    case (evict e f s2 s6)
    let ?s5 = "vm_supt_set_swap (supt (threads s2 (thread_t f))) (upage f) idx
               (log (Swap_out (kpage f) idx)
                 (pagedir_clear_page (pagedir (threads s2 (thread_t f))) (upage f) s2))"
    note fs = clock_pick_evict_frame_fields [OF evict(3)]
    have "frame_inv (?s5\<lparr>frame_lock := False\<rparr>) = frame_inv (s\<lparr>frame_lock := False\<rparr>)"
      by (rule frame_inv_fields)
        (simp_all add: fs vm_supt_set_swap_def pagedir_clear_page_def log_def)
    with assms(1) have "frame_inv (?s5\<lparr>frame_lock := False\<rparr>)"
      by (simp add: frame_inv_unlocked)
    from vm_frame_do_free_inv [OF this evict(7)]
    have "frame_inv (s6\<lparr>frame_lock := False\<rparr>)" .
    from palloc_get_page_inv [OF this evict(8)] show ?thesis
      by simp
  qed
  then show "frame_inv (s8\<lparr>frame_lock := False\<rparr>)" and "fp \<notin> fst ` set (frame_map s8)"
    and "fp \<notin> set (user_pool s8)"
    by simp_all
qed

lemma vm_frame_allocate_inv:
  assumes "frame_inv s"
    and fresh: "\<forall>frame_page s8 a. acquire_frame cur idx s = Inr (frame_page, s8) \<longrightarrow> m = Some a
        \<longrightarrow> kheap s8 a = None"
    and "vm_frame_allocate cur idx m upg s = Inr (r, s')"
  shows "frame_inv s'"
proof -
  from assms(3) obtain fp s8 where acq: "acquire_frame cur idx s = Inr (fp, s8)"
    by (auto simp: vm_frame_allocate_def split: sum.splits)
  note inv8 = acquire_frame_inv [OF assms(1) acq]
  show ?thesis
  proof (cases m)
    case None
    with assms(3) acq have "s' = lock_release (log (Malloc None) s8)"
      by (simp add: vm_frame_allocate_def malloc_def)
    with inv8(1) show ?thesis
      by (simp add: frame_inv_def lock_release_def log_def)
  next
    case (Some a)
    with fresh acq have fr: "kheap s8 a = None"
      by simp
    from inv8(2) have mo: "map_of (frame_map s8) fp = None"
      by (simp add: map_of_eq_None_iff)
    from inv8(1) fr have na: "a \<notin> snd ` set (frame_map s8)"
      by (force simp: frame_inv_def)
    from Some assms(3) acq mo have s': "s' = lock_release (log (Malloc (Some a)) s8
        \<lparr>kheap := (kheap s8)(a \<mapsto> \<lparr>kpage = fp, upage = upg, thread_t = cur, pinned = False\<rparr>),
          frame_map := (fp, a) # frame_map s8,
          frame_list := frame_list s8 @ [a]\<rparr>)"
      by (simp add: vm_frame_allocate_def malloc_def Let_def hash_insert_def
          list_push_back_def log_def)
    from inv8(1) have hp: "\<forall>(k, b) \<in> set (frame_map s8). \<exists>f. kheap s8 b = Some f \<and> kpage f = k"
      by (simp add: frame_inv_def)
    have hp': "\<forall>(k, b) \<in> set (frame_map s8).
        \<exists>f. ((kheap s8)(a \<mapsto> \<lparr>kpage = fp, upage = upg, thread_t = cur, pinned = False\<rparr>)) b = Some f
           \<and> kpage f = k"
      using hp na by force
    from inv8 na hp' show ?thesis
      by (simp add: s' frame_inv_def lock_release_def log_def)
  qed
qed

lemma vm_frame_free_inv:
  assumes "frame_inv s" and "vm_frame_free k s = Inr s' \<or> vm_frame_remove_entry k s = Inr s'"
  shows "frame_inv s'"
proof -
  from assms(2) obtain fp s2
    where fr: "vm_frame_do_free k fp (s\<lparr>frame_lock := True\<rparr>) = Inr s2"
    and s': "s' = lock_release s2"
    by (auto simp: vm_frame_free_def vm_frame_remove_entry_def lock_acquire_def
        split: if_splits sum.splits)
  from assms(1) have "frame_inv (s\<lparr>frame_lock := True\<rparr>\<lparr>frame_lock := False\<rparr>)"
    by (simp add: frame_inv_def)
  from vm_frame_do_free_inv [OF this fr] have "frame_inv (s2\<lparr>frame_lock := False\<rparr>)" .
  then show ?thesis
    by (simp add: s' lock_release_def)
qed

lemma vm_frame_set_pinned_inv:
  assumes "frame_inv s" and "vm_frame_set_pinned k v s = Inr s'"
  shows "frame_inv s'"
proof -
  from assms(2) obtain a f where "kheap s a = Some f"
    and s': "s' = s\<lparr>frame_lock := False, kheap := (kheap s)(a \<mapsto> f\<lparr>pinned := v\<rparr>)\<rparr>"
    by (auto simp: vm_frame_set_pinned_def lock_acquire_def lock_release_def
        split: if_splits option.splits)
  from assms(1) have hp: "\<forall>(k, b) \<in> set (frame_map s). \<exists>g. kheap s b = Some g \<and> kpage g = k"
    by (simp add: frame_inv_def)
  have "\<forall>(k, b) \<in> set (frame_map s).
      \<exists>g. ((kheap s)(a \<mapsto> f\<lparr>pinned := v\<rparr>)) b = Some g \<and> kpage g = k"
    using hp \<open>kheap s a = Some f\<close> by force
  with assms(1) show ?thesis
    by (simp add: s' frame_inv_def)
qed

lemma reachable_frame_inv: "reachable s \<Longrightarrow> frame_inv s"
proof (induction rule: reachable.induct)
  case (init w)
  then show ?case
    by (simp add: vm_frame_init_def frame_inv_def)
next
  case (allocate s cur idx m upg r s')
  then show ?case
    by (blast intro: vm_frame_allocate_inv)
next
  case (free s k s')
  then show ?case
    by (blast intro: vm_frame_free_inv)
next
  case (remove_entry s k s')
  then show ?case
    by (blast intro: vm_frame_free_inv)
next
  case (pin s k s')
  then show ?case
    by (auto simp: vm_frame_pin_def intro: vm_frame_set_pinned_inv)
next
  case (unpin s k s')
  then show ?case
    by (auto simp: vm_frame_unpin_def intro: vm_frame_set_pinned_inv)
next
  case (mmu s A P)
  then show ?case
    by (simp add: frame_inv_def)
next
  case (storage s t)
  then show ?case
    by (simp add: frame_inv_def)
next
  case (release s k)
  then show ?case
    by (simp add: frame_inv_def)
qed

lemma before_second_eviction_allocate:
  "vm_frame_allocate 1 1 (Some 10) 0x0804a000 before_second_eviction =
     Inr (Some 0xc0001000, after_second_eviction)"
  by (simp add: before_second_eviction_def after_second_eviction_def after_eviction_def
      boot_def op_defs scan_defs example_threads_def)

lemma reachable_after_second_eviction: "reachable after_second_eviction"
proof (rule reachable.allocate [OF _ _ before_second_eviction_allocate])
  show "reachable before_second_eviction"
    unfolding before_second_eviction_def
    by (rule reachable.storage) (rule reachable_after_eviction)
  show "\<forall>frame_page s8 a. acquire_frame 1 1 before_second_eviction = Inr (frame_page, s8)
          \<longrightarrow> Some 10 = Some a \<longrightarrow> kheap s8 a = None"
    by (simp add: before_second_eviction_def after_eviction_def boot_def op_defs scan_defs
        example_threads_def)
qed

text \<open>
  C6. In every state the frame table reaches from \<open>vm_frame_init\<close> by completed public
  operations (allocate, free, remove-entry, pin, unpin), the entries stored in the registry
  are exactly the entries of the eviction order, and each is stored once in either. The
  allocations include those whose scan passes the end of the list, whatever the storage
  around the tail sentinel holds, and those that evict.
\<close>

theorem registry_and_eviction_order_agree:
  assumes "reachable s"
  shows "snd ` set (frame_map s) = set (frame_list s) \<and>
         distinct (map fst (frame_map s)) \<and> distinct (map snd (frame_map s)) \<and>
         distinct (frame_list s)"
  using reachable_frame_inv [OF assms] by (simp add: frame_inv_def)

theorem registry_and_eviction_order_agree_witness:
  "reachable after_second_eviction \<and>
   snd ` set (frame_map after_second_eviction) = set (frame_list after_second_eviction) \<and>
   distinct (map fst (frame_map after_second_eviction)) \<and>
   distinct (map snd (frame_map after_second_eviction)) \<and>
   distinct (frame_list after_second_eviction)"
  using registry_and_eviction_order_agree [OF reachable_after_second_eviction]
    reachable_after_second_eviction
  by simp

subsection \<open>Eviction\<close>



end
